theory Spec2Isabelle
  imports Main
begin

section \<open>Python string primitives used by the registry\<close>

text \<open>
  \<^verbatim>\<open>name.split(".")\<close> for a one-character separator: the result is never empty
  (\<^verbatim>\<open>"".split(".") == [""]\<close>, \<^verbatim>\<open>"a.".split(".") == ["a", ""]\<close>).
\<close>

fun str_split :: "char \<Rightarrow> string \<Rightarrow> string list" where
  "str_split sep [] = [[]]"
| "str_split sep (c # cs) =
     (if c = sep then [] # str_split sep cs
      else (case str_split sep cs of
              [] \<Rightarrow> [[c]]
            | w # ws \<Rightarrow> (c # w) # ws))"

text \<open>\<^verbatim>\<open>sep.join(words)\<close>; the join of no words is the empty string.\<close>

fun str_join :: "string \<Rightarrow> string list \<Rightarrow> string" where
  "str_join sep [] = []"
| "str_join sep [w] = w"
| "str_join sep (w # v # ws) = w @ sep @ str_join sep (v # ws)"

text \<open>
  Line 42: \<^verbatim>\<open>candidate_parent_name = ".".join(name.split(".")[:-1])\<close>.
  The slice \<^verbatim>\<open>[:-1]\<close> drops the last element, as \<^const>\<open>butlast\<close> does.
\<close>

definition candidate_parent_name :: "string \<Rightarrow> string" where
  "candidate_parent_name n = str_join ''.'' (butlast (str_split CHR ''.'' n))"

section \<open>Data model\<close>

text \<open>
  Handlers are external collaborators; the module only names the two no-op classes it
  installs on the root. Any other handler is identified by a number.
\<close>

datatype event_handler = NullEventHandler | EventHandler nat

datatype span_handler = NullSpanHandler | SpanHandler nat | FailingSpanHandler nat

text \<open>
  A \<open>FailingSpanHandler\<close> stands for a handler that raises whenever it is notified.
  Exceptions: \<open>DuplicateNameError\<close> of the registry, \<open>TypeError\<close> of
  \<^verbatim>\<open>object.__init_subclass__\<close>, \<open>KeyError\<close> of a dictionary lookup, the failure of a
  handler, and the failure of an instrumented operation, identified by a number.
\<close>

datatype error =
  DuplicateNameError | TypeError | KeyError | HandlerFailure | OperationFailure nat

text \<open>
  A \<^verbatim>\<open>Dispatcher\<close> object. \<open>instance_id\<close> is the identity of the object: the number of
  dispatchers constructed before it.
\<close>

record dispatcher =
  name :: string
  root_name :: string
  parent_name :: string
  event_handlers :: "event_handler list"
  span_handlers :: "span_handler list"
  propagate :: bool
  instance_id :: nat

text \<open>
  What a span handler is told. \<open>OnEnter h i d args\<close>: handler \<open>h\<close> is told that span
  \<open>i\<close> opened on dispatcher \<open>d\<close> with the bound inputs \<open>args\<close>; \<open>OnExit h i out\<close>: that
  span \<open>i\<close> closed with outcome \<open>out\<close>.
\<close>

datatype outcome = Success int | Failure error

datatype notification =
  OnEnter span_handler nat string "int list"
| OnExit span_handler nat outcome

text \<open>
  The module's global state: the dictionary of \<^verbatim>\<open>root_manager.dispatchers\<close>, the number
  of \<^verbatim>\<open>Dispatcher\<close> objects constructed so far, the notifications delivered to span
  handlers so far (oldest first), and the next span id.
\<close>

record state =
  dispatchers :: "string \<rightharpoonup> dispatcher"
  instances :: nat
  span_log :: "notification list"
  next_span_id :: nat

text \<open>
  The defaults of the \<^verbatim>\<open>Dispatcher\<close> constructor for the arguments a call leaves out.
  The constructor is defined outside this module, so its defaults are a parameter.
\<close>

record ctor_defaults =
  default_root_name :: string
  default_parent_name :: string
  default_event_handlers :: "event_handler list"
  default_span_handlers :: "span_handler list"
  default_propagate :: bool

section \<open>The registry\<close>

text \<open>
  Modelled from the spec: the \<^verbatim>\<open>Dispatcher\<close> constructor, which is not part of this
  module. It stores the arguments given and the defaults for the others, and the new object
  gets a fresh identity. (The \<^verbatim>\<open>manager\<close> argument is the one global registry, which
  is the state itself.)
\<close>

definition Dispatcher ::
  "ctor_defaults \<Rightarrow> string \<Rightarrow> string option \<Rightarrow> string option \<Rightarrow> event_handler list option \<Rightarrow>
   span_handler list option \<Rightarrow> bool option \<Rightarrow> state \<Rightarrow> dispatcher \<times> state" where
  "Dispatcher dflt n rn pn ehs shs prop st =
     (\<lparr> name = n,
        root_name = (case rn of None \<Rightarrow> default_root_name dflt | Some r \<Rightarrow> r),
        parent_name = (case pn of None \<Rightarrow> default_parent_name dflt | Some p \<Rightarrow> p),
        event_handlers = (case ehs of None \<Rightarrow> default_event_handlers dflt | Some hs \<Rightarrow> hs),
        span_handlers = (case shs of None \<Rightarrow> default_span_handlers dflt | Some hs \<Rightarrow> hs),
        propagate = (case prop of None \<Rightarrow> default_propagate dflt | Some b \<Rightarrow> b),
        instance_id = instances st \<rparr>,
      st\<lparr>instances := Suc (instances st)\<rparr>)"

text \<open>The state before the module is loaded: nothing registered, nothing constructed.\<close>

definition unloaded :: state where
  "unloaded = \<lparr> dispatchers = Map.empty, instances = 0, span_log = [], next_span_id = 0 \<rparr>"

text \<open>Lines 15 to 20: the root dispatcher.\<close>

definition root_dispatcher :: "ctor_defaults \<Rightarrow> dispatcher" where
  "root_dispatcher dflt =
     fst (Dispatcher dflt ''root'' None None (Some [NullEventHandler]) (Some [NullSpanHandler])
            (Some False) unloaded)"

text \<open>
  Modelled from the spec: the \<^verbatim>\<open>Manager\<close> constructor (line 22), which is not part of
  this module: a registry bound to the root, which holds the root under its name and nothing
  else.
\<close>

definition Manager :: "dispatcher \<Rightarrow> state \<Rightarrow> state" where
  "Manager root st = st\<lparr>dispatchers := [name root \<mapsto> root]\<rparr>"

text \<open>Lines 15 to 22 together: the state once the module is loaded.\<close>

definition root_manager :: "ctor_defaults \<Rightarrow> state" where
  "root_manager dflt =
     (let (root, st) = Dispatcher dflt ''root'' None None (Some [NullEventHandler])
                         (Some [NullSpanHandler]) (Some False) unloaded
      in Manager root st)"

text \<open>
  Modelled from the spec: \<^verbatim>\<open>Manager.add_dispatcher\<close>, which is not part of this module:
  it inserts the dispatcher under its name and fails with \<open>DuplicateNameError\<close> when the
  name is taken.
\<close>

definition add_dispatcher :: "dispatcher \<Rightarrow> state \<Rightarrow> error + state" where
  "add_dispatcher d st =
     (case dispatchers st (name d) of
        Some _ \<Rightarrow> Inl DuplicateNameError
      | None \<Rightarrow> Inr (st\<lparr>dispatchers := (dispatchers st)(name d \<mapsto> d)\<rparr>))"

text \<open>
  Lines 37 to 55. The result is the dispatcher returned and the state after the call; an
  exception of \<^verbatim>\<open>add_dispatcher\<close> would leave the function as it is raised.
\<close>

definition get_dispatcher :: "ctor_defaults \<Rightarrow> string \<Rightarrow> state \<Rightarrow> error + dispatcher \<times> state" where
  "get_dispatcher dflt n st =
     (case dispatchers st n of
        Some d \<Rightarrow> Inr (d, st)
      | None \<Rightarrow>
          (let candidate = candidate_parent_name n;
               parent = (if dispatchers st candidate \<noteq> None then candidate else ''root'');
               (new_dispatcher, st1) =
                  Dispatcher dflt n (Some (name (root_dispatcher dflt))) (Some parent)
                    None None None st
           in case add_dispatcher new_dispatcher st1 of
                Inl e \<Rightarrow> Inl e
              | Inr st2 \<Rightarrow> Inr (new_dispatcher, st2)))"

text \<open>A sequence of \<^verbatim>\<open>get_dispatcher\<close> calls, one per name, in order.\<close>

fun get_dispatchers :: "ctor_defaults \<Rightarrow> string list \<Rightarrow> state \<Rightarrow> error + state" where
  "get_dispatchers dflt [] st = Inr st"
| "get_dispatchers dflt (n # ns) st =
     (case get_dispatcher dflt n st of
        Inl e \<Rightarrow> Inl e
      | Inr (d, st') \<Rightarrow> get_dispatchers dflt ns st')"

subsection \<open>Parent resolution as the specification words it\<close>

text \<open>
  The proper dotted prefixes of a name, longest first: what is left of the name after
  stripping one, two, ... trailing dot-delimited segments while a segment remains. For
  \<^verbatim>\<open>"a.b.c"\<close> these are \<^verbatim>\<open>"a.b"\<close> and \<^verbatim>\<open>"a"\<close>; a name without a dot has none.
\<close>

definition dotted_prefixes :: "string \<Rightarrow> string list" where
  "dotted_prefixes n =
     (let segs = str_split CHR ''.'' n
      in map (\<lambda>k. str_join ''.'' (take k segs)) (rev [1..<length segs]))"

text \<open>
  The specification's resolution: strip the last segment repeatedly and take the first
  prefix that names an existing dispatcher, otherwise the root's name.
\<close>

definition spec_parent_name :: "(string \<rightharpoonup> dispatcher) \<Rightarrow> string \<Rightarrow> string" where
  "spec_parent_name reg n =
     (case find (\<lambda>p. reg p \<noteq> None) (dotted_prefixes n) of
        Some p \<Rightarrow> p
      | None \<Rightarrow> ''root'')"

text \<open>
  The parent name of the dispatcher that \<^verbatim>\<open>get_dispatcher(n)\<close> returns after the module is
  loaded and the names \<open>ns\<close> have been requested in order, by the code and by the
  specification's resolution.
\<close>

definition resolved_parent :: "ctor_defaults \<Rightarrow> string list \<Rightarrow> string \<Rightarrow> error + string" where
  "resolved_parent dflt ns n =
     (case get_dispatchers dflt ns (root_manager dflt) of
        Inl e \<Rightarrow> Inl e
      | Inr st \<Rightarrow>
          (case get_dispatcher dflt n st of
             Inl e \<Rightarrow> Inl e
           | Inr (d, st') \<Rightarrow> Inr (parent_name d)))"

definition spec_resolved_parent :: "ctor_defaults \<Rightarrow> string list \<Rightarrow> string \<Rightarrow> error + string" where
  "spec_resolved_parent dflt ns n =
     (case get_dispatchers dflt ns (root_manager dflt) of
        Inl e \<Rightarrow> Inl e
      | Inr st \<Rightarrow> Inr (spec_parent_name (dispatchers st) n))"

text \<open>
  The tree is connected at \<open>n\<close>: following parent names from \<open>n\<close> through registered
  dispatchers arrives at the root.
\<close>

inductive reaches_root :: "(string \<rightharpoonup> dispatcher) \<Rightarrow> string \<Rightarrow> bool" where
  at_root: "reg ''root'' = Some r \<Longrightarrow> reaches_root reg ''root''"
| via_parent: "reg n = Some d \<Longrightarrow> n \<noteq> ''root'' \<Longrightarrow> reaches_root reg (parent_name d) \<Longrightarrow>
     reaches_root reg n"

text \<open>
  The dispatcher that lines 42 to 53 construct for a name that is not registered.
\<close>

definition fresh_dispatcher :: "ctor_defaults \<Rightarrow> string \<Rightarrow> state \<Rightarrow> dispatcher" where
  "fresh_dispatcher dflt n st =
     \<lparr> name = n, root_name = ''root'',
       parent_name = (if dispatchers st (candidate_parent_name n) \<noteq> None
                      then candidate_parent_name n else ''root''),
       event_handlers = default_event_handlers dflt,
       span_handlers = default_span_handlers dflt,
       propagate = default_propagate dflt,
       instance_id = instances st \<rparr>"

text \<open>
  A well-formed registry: the root is registered, every dispatcher is registered under its
  own name and connected to the root, and the parent of every non-root dispatcher is
  registered.
\<close>

definition registry_ok :: "(string \<rightharpoonup> dispatcher) \<Rightarrow> bool" where
  "registry_ok reg \<longleftrightarrow>
     reg ''root'' \<noteq> None \<and>
     (\<forall>n d. reg n = Some d \<longrightarrow>
        name d = n \<and> reaches_root reg n \<and> (n \<noteq> ''root'' \<longrightarrow> reg (parent_name d) \<noteq> None))"

text \<open>A choice of constructor defaults for the examples.\<close>

definition example_defaults :: ctor_defaults where
  "example_defaults =
     \<lparr> default_root_name = ''root'', default_parent_name = [],
       default_event_handlers = [],
       default_span_handlers = [SpanHandler 1, FailingSpanHandler 2],
       default_propagate = True \<rparr>"

section \<open>Event tags\<close>

text \<open>
  Line 25: the context variable \<^verbatim>\<open>active_event_tags\<close>. In a context it either holds a
  value or was never set (\<open>None\<close>), and then \<^verbatim>\<open>get()\<close> returns the default, the empty
  mapping.
\<close>

type_synonym tags = "string \<rightharpoonup> string"

record py_context =
  active_event_tags :: "tags option"

text \<open>A token remembers what the variable held before the \<^verbatim>\<open>set\<close> that made it.\<close>

datatype token = Token "tags option"

definition ContextVar_get :: "py_context \<Rightarrow> tags" where
  "ContextVar_get c = (case active_event_tags c of None \<Rightarrow> Map.empty | Some t \<Rightarrow> t)"

definition ContextVar_set :: "tags \<Rightarrow> py_context \<Rightarrow> token \<times> py_context" where
  "ContextVar_set t c = (Token (active_event_tags c), c\<lparr>active_event_tags := Some t\<rparr>)"

fun ContextVar_reset :: "token \<Rightarrow> py_context \<Rightarrow> py_context" where
  "ContextVar_reset (Token old) c = c\<lparr>active_event_tags := old\<rparr>"

text \<open>
  Lines 28 to 34, used as \<^verbatim>\<open>with event_tags(new_tags): body\<close>. The body runs where the
  generator yields; it returns a value or raises, and may change the context. The
  \<^verbatim>\<open>finally\<close> clause runs on both paths, and a failure of the body is raised again.
\<close>

definition event_tags ::
  "tags \<Rightarrow> (py_context \<Rightarrow> (error + 'a) \<times> py_context) \<Rightarrow> py_context \<Rightarrow>
   (error + 'a) \<times> py_context" where
  "event_tags new_tags body c =
     (let (token, c1) = ContextVar_set new_tags c;
          (r, c2) = body c1
      in case r of
           Inl e \<Rightarrow> (Inl e, ContextVar_reset token c2)
         | Inr v \<Rightarrow> (Inr v, ContextVar_reset token c2))"

section \<open>Spans\<close>

text \<open>
  Modelled from the spec: how a dispatcher notifies span handlers, which is not part of this
  module. A notification is delivered to each handler in order; a handler that fails is
  caught and the next one still runs.
\<close>

fun handler_of :: "notification \<Rightarrow> span_handler" where
  "handler_of (OnEnter h i d args) = h"
| "handler_of (OnExit h i out) = h"

fun handler_raises :: "span_handler \<Rightarrow> bool" where
  "handler_raises NullSpanHandler = False"
| "handler_raises (SpanHandler k) = False"
| "handler_raises (FailingSpanHandler k) = True"

definition call_span_handler :: "notification \<Rightarrow> state \<Rightarrow> error option \<times> state" where
  "call_span_handler note st =
     (if handler_raises (handler_of note) then Some HandlerFailure else None,
      st\<lparr>span_log := span_log st @ [note]\<rparr>)"

fun notify_handlers :: "notification list \<Rightarrow> state \<Rightarrow> state" where
  "notify_handlers [] st = st"
| "notify_handlers (note # notes) st =
     (case call_span_handler note st of
        (Some e, st') \<Rightarrow> notify_handlers notes st'
      | (None, st') \<Rightarrow> notify_handlers notes st')"

text \<open>
  Modelled from the spec: propagation. The dispatcher named \<open>n\<close> notifies its own handlers;
  if it propagates and is not the root, the same notification goes to its parent, found in
  the registry, and so on. \<open>None\<close> means that this never ends; a parent that is not
  registered is a \<open>KeyError\<close>.
\<close>

partial_function (option) propagate_span ::
  "(span_handler \<Rightarrow> notification) \<Rightarrow> string \<Rightarrow> state \<Rightarrow> (error option \<times> state) option" where
  "propagate_span mk n st =
     (case dispatchers st n of
        None \<Rightarrow> Some (Some KeyError, st)
      | Some d \<Rightarrow>
          (let st1 = notify_handlers (map mk (span_handlers d)) st
           in if propagate d \<and> n \<noteq> ''root'' then propagate_span mk (parent_name d) st1
              else Some (None, st1)))"

text \<open>
  An operation returns a value or fails, and may change the state; \<open>None\<close> means that it
  does not return.
\<close>

type_synonym operation = "state \<Rightarrow> ((error + int) \<times> state) option"

fun outcome_of :: "error + int \<Rightarrow> outcome" where
  "outcome_of (Inl e) = Failure e"
| "outcome_of (Inr v) = Success v"

text \<open>
  Modelled from the spec: one call of an operation wrapped by \<^verbatim>\<open>Dispatcher.span\<close>, which is
  not part of this module. A span is opened and the handlers are told, the operation runs,
  the handlers are told its outcome, and the operation's own result, value or failure, is the
  result of the call.
\<close>

definition span_call :: "string \<Rightarrow> int list \<Rightarrow> operation \<Rightarrow> operation" where
  "span_call n args f st =
     (let sid = next_span_id st;
          st0 = st\<lparr>next_span_id := Suc sid\<rparr>
      in case propagate_span (\<lambda>h. OnEnter h sid n args) n st0 of
           None \<Rightarrow> None
         | Some (Some e, st1) \<Rightarrow> Some (Inl e, st1)
         | Some (None, st1) \<Rightarrow>
             (case f st1 of
                None \<Rightarrow> None
              | Some (r, st2) \<Rightarrow>
                  (case propagate_span (\<lambda>h. OnExit h sid (outcome_of r)) n st2 of
                     None \<Rightarrow> None
                   | Some (Some e, st3) \<Rightarrow> Some (Inl e, st3)
                   | Some (None, st3) \<Rightarrow> Some (r, st3))))"

text \<open>
  The dispatchers a notification from \<open>n\<close> passes through, the one named \<open>n\<close> first.
\<close>

inductive propagation_path :: "(string \<rightharpoonup> dispatcher) \<Rightarrow> string \<Rightarrow> dispatcher list \<Rightarrow> bool" where
  last_stop: "reg n = Some d \<Longrightarrow> \<not> (propagate d \<and> n \<noteq> ''root'') \<Longrightarrow> propagation_path reg n [d]"
| next_stop: "reg n = Some d \<Longrightarrow> propagate d \<Longrightarrow> n \<noteq> ''root'' \<Longrightarrow>
     propagation_path reg (parent_name d) ds \<Longrightarrow> propagation_path reg n (d # ds)"

fun path_handlers :: "dispatcher list \<Rightarrow> span_handler list" where
  "path_handlers [] = []"
| "path_handlers (d # ds) = span_handlers d @ path_handlers ds"

section \<open>The instrumentation hook\<close>

text \<open>
  A value in a class dictionary. \<open>isabstractmethod\<close> says that it has a true
  \<^verbatim>\<open>__isabstractmethod__\<close>, \<open>span_decorated\<close> that it has the attribute
  \<^verbatim>\<open>DISPATCHER_SPAN_DECORATED_ATTR\<close>. \<open>spans\<close> names the dispatchers whose spans wrap the
  function, outermost first, and \<open>function_id\<close> identifies the function underneath.
\<close>

record attr =
  is_callable :: bool
  isabstractmethod :: bool
  span_decorated :: bool
  spans :: "string list"
  function_id :: nat

text \<open>
  A class: its identity, its \<^verbatim>\<open>__module__\<close> and its own \<^verbatim>\<open>__dict__\<close> in order.
\<close>

record py_class =
  class_id :: nat
  module :: string
  class_dict :: "(string \<times> attr) list"

text \<open>
  Modelled from the spec: \<^verbatim>\<open>Dispatcher.span\<close> as a decorator, which is not part of this
  module. A method that carries the marker is returned unchanged; any other is wrapped with
  the dispatcher's span and marked.
\<close>

definition span :: "dispatcher \<Rightarrow> attr \<Rightarrow> attr" where
  "span d m =
     (if span_decorated m then m
      else m\<lparr>span_decorated := True, spans := name d # spans m\<rparr>)"

text \<open>Calling a method: each wrapping span in turn, then the function \<open>f\<close> underneath.\<close>

fun call_spanned :: "string list \<Rightarrow> int list \<Rightarrow> operation \<Rightarrow> operation" where
  "call_spanned [] args f st = f st"
| "call_spanned (d # ds) args f st = span_call d args (call_spanned ds args f) st"

text \<open>Lines 78 to 87: the loop over one base class's dictionary.\<close>

fun collect_base ::
  "(string \<times> attr) list \<Rightarrow> string list \<times> string list \<Rightarrow> string list \<times> string list" where
  "collect_base [] (abstract_methods, decorated_methods) = (abstract_methods, decorated_methods)"
| "collect_base ((a, method) # items) (abstract_methods, decorated_methods) =
     (if \<not> is_callable method then collect_base items (abstract_methods, decorated_methods)
      else if isabstractmethod method
        then collect_base items (abstract_methods @ [a], decorated_methods)
      else if span_decorated method
        then collect_base items (abstract_methods, decorated_methods @ [a])
      else collect_base items (abstract_methods, decorated_methods))"

text \<open>Lines 75 to 87: the loop over \<^verbatim>\<open>inspect.getmro(cls)\<close>, skipping the class itself.\<close>

fun collect_mro ::
  "py_class \<Rightarrow> py_class list \<Rightarrow> string list \<times> string list \<Rightarrow> string list \<times> string list" where
  "collect_mro cls [] acc = acc"
| "collect_mro cls (base_cls # mro) acc =
     (if class_id base_cls = class_id cls then collect_mro cls mro acc
      else collect_mro cls mro (collect_base (class_dict base_cls) acc))"

text \<open>\<^verbatim>\<open>setattr(cls, a, v)\<close>: the entry of \<open>a\<close> gets the value \<open>v\<close>; a new name is added.\<close>

fun dict_set :: "string \<Rightarrow> attr \<Rightarrow> (string \<times> attr) list \<Rightarrow> (string \<times> attr) list" where
  "dict_set a v [] = [(a, v)]"
| "dict_set a v ((k, w) # items) = (if k = a then (k, v) # items else (k, w) # dict_set a v items)"

definition setattr :: "py_class \<Rightarrow> string \<Rightarrow> attr \<Rightarrow> py_class" where
  "setattr cls a v = cls\<lparr>class_dict := dict_set a v (class_dict cls)\<rparr>"

text \<open>
  Lines 89 to 97: the loop over the items of the class's own dictionary. The only change made
  while the loop runs is \<^verbatim>\<open>setattr\<close> on the key being visited, which replaces a value and
  leaves the keys and their order alone, so the loop visits the items the dictionary had when
  it started.
\<close>

fun wrap_items ::
  "string list \<Rightarrow> string list \<Rightarrow> dispatcher \<Rightarrow> (string \<times> attr) list \<Rightarrow> py_class \<Rightarrow> py_class" where
  "wrap_items abstract_methods decorated_methods dispatcher [] cls = cls"
| "wrap_items abstract_methods decorated_methods dispatcher ((a, method) # items) cls =
     (if \<not> is_callable method \<or> isabstractmethod method
        then wrap_items abstract_methods decorated_methods dispatcher items cls
      else if a \<in> set abstract_methods \<or> a \<in> set decorated_methods
        then wrap_items abstract_methods decorated_methods dispatcher items
               (setattr cls a (span dispatcher method))
      else wrap_items abstract_methods decorated_methods dispatcher items cls)"

text \<open>
  Lines 71 to 97. \<open>super_raises\<close> is what \<^verbatim>\<open>super().__init_subclass__(**kwargs)\<close> on line 72
  does, which runs code outside this module: \<open>None\<close> when it returns. \<open>mro\<close> is
  \<^verbatim>\<open>inspect.getmro(cls)\<close>. The result is the class as the hook leaves it and the state.
\<close>

definition init_subclass ::
  "ctor_defaults \<Rightarrow> error option \<Rightarrow> py_class \<Rightarrow> py_class list \<Rightarrow> state \<Rightarrow>
   error + py_class \<times> state" where
  "init_subclass dflt super_raises cls mro st =
     (case super_raises of
        Some e \<Rightarrow> Inl e
      | None \<Rightarrow>
          (let (abstract_methods, decorated_methods) = collect_mro cls mro ([], [])
           in case get_dispatcher dflt (module cls) st of
                Inl e \<Rightarrow> Inl e
              | Inr (dispatcher, st') \<Rightarrow>
                  Inr (wrap_items abstract_methods decorated_methods dispatcher
                         (class_dict cls) cls, st')))"

text \<open>
  The names that a class dictionary defines as a callable that is abstract or carries the
  marker.
\<close>

definition marked_names :: "(string \<times> attr) list \<Rightarrow> string set" where
  "marked_names items =
     {a. \<exists>m. (a, m) \<in> set items \<and> is_callable m \<and> (isabstractmethod m \<or> span_decorated m)}"

text \<open>
  The names the hook looks for: those that some class of the method-resolution order other
  than the class itself defines as a callable that is abstract or carries the marker.
\<close>

definition instrumented_names :: "py_class \<Rightarrow> py_class list \<Rightarrow> string set" where
  "instrumented_names cls mro =
     (\<Union>base_cls \<in> {b \<in> set mro. class_id b \<noteq> class_id cls}. marked_names (class_dict base_cls))"

text \<open>
  What the hook does to one item of the class dictionary, given the names it looks for and
  the dispatcher of the module.
\<close>

definition wrapped_item :: "string set \<Rightarrow> dispatcher \<Rightarrow> string \<times> attr \<Rightarrow> string \<times> attr" where
  "wrapped_item names d item =
     (fst item,
      if is_callable (snd item) \<and> \<not> isabstractmethod (snd item) \<and> fst item \<in> names
      then span d (snd item) else snd item)"

subsection \<open>Example classes\<close>

text \<open>
  An ordinary function, an abstract method, and two classes: a base with an abstract
  \<open>run\<close>, a \<open>query\<close> that carries the marker and an ordinary \<open>describe\<close>, and a subclass
  that implements \<open>run\<close>, overrides \<open>query\<close> and \<open>describe\<close>, adds \<open>helper\<close> and declares
  an abstract \<open>stop\<close>.
\<close>

definition plain_function :: "nat \<Rightarrow> attr" where
  "plain_function k =
     \<lparr> is_callable = True, isabstractmethod = False, span_decorated = False, spans = [],
       function_id = k \<rparr>"

definition abstract_method :: "nat \<Rightarrow> attr" where
  "abstract_method k = (plain_function k)\<lparr>isabstractmethod := True\<rparr>"

definition example_base :: py_class where
  "example_base =
     \<lparr> class_id = 1, module = ''pkg.base'',
       class_dict =
         [(''run'', abstract_method 10),
          (''query'', (plain_function 11)\<lparr>span_decorated := True, spans := [''pkg.base'']\<rparr>),
          (''describe'', plain_function 12),
          (''stop'', abstract_method 13)] \<rparr>"

definition example_sub :: py_class where
  "example_sub =
     \<lparr> class_id = 2, module = ''pkg.impl'',
       class_dict =
         [(''run'', plain_function 20),
          (''query'', plain_function 21),
          (''describe'', plain_function 22),
          (''helper'', plain_function 23),
          (''stop'', abstract_method 24)] \<rparr>"

text \<open>An operation that fails with the failure number \<open>k\<close> and changes nothing.\<close>

definition failing_operation :: "nat \<Rightarrow> operation" where
  "failing_operation k st = Some (Inl (OperationFailure k), st)"

text \<open>A class of another module that defines nothing.\<close>

definition example_empty :: py_class where
  "example_empty = \<lparr> class_id = 3, module = ''pkg.empty'', class_dict = [] \<rparr>"

text \<open>
  A function already wrapped by the span of the dispatcher \<open>svc\<close>, and a class whose
  dictionary holds it under the name of an abstract method of the base.
\<close>

definition example_wrapped :: attr where
  "example_wrapped =
     span (fresh_dispatcher example_defaults ''svc'' (root_manager example_defaults))
       (plain_function 30)"

definition example_rewrapped :: py_class where
  "example_rewrapped =
     \<lparr> class_id = 4, module = ''pkg.other'', class_dict = [(''run'', example_wrapped)] \<rparr>"

section \<open>Properties of the string primitives\<close>

lemma str_split_not_Nil [simp]: "str_split sep s \<noteq> []"
  by (induction s) (auto split: list.splits)

lemma str_split_no_sep: "sep \<notin> set s \<Longrightarrow> str_split sep s = [s]"
  by (induction s) auto

lemma str_split_length_sep: "sep \<in> set s \<Longrightarrow> 2 \<le> length (str_split sep s)"
  by (induction s) (auto split: list.splits simp: Suc_le_eq)

lemma candidate_no_dot: "CHR ''.'' \<notin> set n \<Longrightarrow> candidate_parent_name n = []"
  by (simp add: candidate_parent_name_def str_split_no_sep)

lemma candidate_longest_dotted_prefix:
  assumes "CHR ''.'' \<in> set n"
  shows "candidate_parent_name n = hd (dotted_prefixes n)"
    and "candidate_parent_name n \<in> set (dotted_prefixes n)"
proof -
  let ?segs = "str_split CHR ''.'' n"
  have len: "2 \<le> length ?segs" using assms by (rule str_split_length_sep)
  then obtain m where m: "length ?segs = Suc (Suc m)"
    by (cases "length ?segs") (auto simp: Suc_le_eq gr0_conv_Suc)
  have up: "[Suc 0..<length ?segs] = [Suc 0..<Suc m] @ [Suc m]" using m by simp
  have bl: "butlast ?segs = take (Suc m) ?segs" using m by (simp add: butlast_conv_take)
  show "candidate_parent_name n = hd (dotted_prefixes n)"
    by (simp add: dotted_prefixes_def candidate_parent_name_def Let_def up bl del: upt_Suc)
  then show "candidate_parent_name n \<in> set (dotted_prefixes n)"
    by (simp add: dotted_prefixes_def Let_def up del: upt_Suc)
qed

section \<open>Properties of the registry\<close>

lemma root_dispatcher_name: "name (root_dispatcher dflt) = ''root''"
  by (simp add: root_dispatcher_def Dispatcher_def)

lemma root_manager_dispatchers:
  "dispatchers (root_manager dflt) = [''root'' \<mapsto> root_dispatcher dflt]"
  by (simp add: root_manager_def root_dispatcher_def Dispatcher_def Manager_def unloaded_def)

lemma get_dispatcher_registered:
  "dispatchers st n = Some d \<Longrightarrow> get_dispatcher dflt n st = Inr (d, st)"
  by (simp add: get_dispatcher_def)

lemma get_dispatcher_fresh:
  "dispatchers st n = None \<Longrightarrow>
   get_dispatcher dflt n st =
     Inr (fresh_dispatcher dflt n st,
          st\<lparr>instances := Suc (instances st),
             dispatchers := (dispatchers st)(n \<mapsto> fresh_dispatcher dflt n st)\<rparr>)"
  by (simp add: get_dispatcher_def Dispatcher_def add_dispatcher_def root_dispatcher_name
      fresh_dispatcher_def Let_def)

lemma get_dispatcher_total: "\<exists>d st'. get_dispatcher dflt n st = Inr (d, st')"
proof (cases "dispatchers st n")
  case None
  then show ?thesis by (simp add: get_dispatcher_fresh)
next
  case (Some e)
  then show ?thesis by (simp add: get_dispatcher_registered)
qed

lemmas registry_eval =
  get_dispatcher_def Dispatcher_def add_dispatcher_def Let_def root_manager_def Manager_def
  unloaded_def candidate_parent_name_def root_dispatcher_def example_defaults_def

text \<open>
  C9: loading the module constructs exactly one dispatcher, the root, named \<open>root\<close>, not
  propagating, with the null event handler and the null span handler, and one registry that
  holds the root under its name and nothing else. This is the state every request starts
  from: a request for \<open>root\<close> returns that dispatcher and constructs nothing.
\<close>

theorem bootstrap_root_and_registry:
  "name (root_dispatcher dflt) = ''root'' \<and>
   \<not> propagate (root_dispatcher dflt) \<and>
   event_handlers (root_dispatcher dflt) = [NullEventHandler] \<and>
   span_handlers (root_dispatcher dflt) = [NullSpanHandler] \<and>
   dispatchers (root_manager dflt) = [''root'' \<mapsto> root_dispatcher dflt] \<and>
   dom (dispatchers (root_manager dflt)) = {''root''} \<and>
   instances (root_manager dflt) = 1 \<and>
   instance_id (root_dispatcher dflt) = 0 \<and>
   get_dispatcher dflt ''root'' (root_manager dflt) = Inr (root_dispatcher dflt, root_manager dflt)"
proof -
  have fields: "name (root_dispatcher dflt) = ''root''" "\<not> propagate (root_dispatcher dflt)"
    "event_handlers (root_dispatcher dflt) = [NullEventHandler]"
    "span_handlers (root_dispatcher dflt) = [NullSpanHandler]"
    "instance_id (root_dispatcher dflt) = 0"
    by (simp_all add: root_dispatcher_def Dispatcher_def unloaded_def)
  have count: "instances (root_manager dflt) = 1"
    by (simp add: root_manager_def Dispatcher_def Manager_def unloaded_def)
  have reg: "dispatchers (root_manager dflt) = [''root'' \<mapsto> root_dispatcher dflt]"
    by (rule root_manager_dispatchers)
  have "dispatchers (root_manager dflt) ''root'' = Some (root_dispatcher dflt)"
    by (simp add: reg)
  then have again: "get_dispatcher dflt ''root'' (root_manager dflt) =
      Inr (root_dispatcher dflt, root_manager dflt)"
    by (rule get_dispatcher_registered)
  from fields count reg again show ?thesis by simp
qed

text \<open>
  C4: for every name and every state, \<^verbatim>\<open>get_dispatcher\<close> returns a dispatcher, and a second
  call with the same name returns the same object (the same fields and the same identity),
  the one now registered under the name, and leaves the state as it is: nothing is
  constructed.
\<close>

theorem get_dispatcher_twice_same_instance:
  "\<exists>d st'. get_dispatcher dflt n st = Inr (d, st') \<and>
           get_dispatcher dflt n st' = Inr (d, st') \<and>
           dispatchers st' n = Some d"
proof (cases "dispatchers st n")
  case None
  let ?d = "fresh_dispatcher dflt n st"
  let ?st' = "st\<lparr>instances := Suc (instances st), dispatchers := (dispatchers st)(n \<mapsto> ?d)\<rparr>"
  have first: "get_dispatcher dflt n st = Inr (?d, ?st')"
    using None by (rule get_dispatcher_fresh)
  have reg: "dispatchers ?st' n = Some ?d" by simp
  then have "get_dispatcher dflt n ?st' = Inr (?d, ?st')"
    by (rule get_dispatcher_registered)
  with first reg show ?thesis by blast
next
  case (Some e)
  then have "get_dispatcher dflt n st = Inr (e, st)"
    by (rule get_dispatcher_registered)
  with Some show ?thesis by blast
qed

text \<open>
  C1 as stated fails: with \<open>a\<close> registered and \<open>a.b\<close> not, the dispatcher created for
  \<open>a.b.c\<close> gets the parent \<open>root\<close>, where stripping segments repeatedly finds \<open>a\<close>.
\<close>

theorem parent_not_nearest_ancestor_counterexample:
  "resolved_parent example_defaults [''a''] ''a.b.c'' = Inr ''root'' \<and>
   spec_resolved_parent example_defaults [''a''] ''a.b.c'' = Inr ''a''"
  by (simp add: resolved_parent_def spec_resolved_parent_def spec_parent_name_def
      dotted_prefixes_def registry_eval upt_rec)

text \<open>
  C1 (amended): for every name that is not registered, \<^verbatim>\<open>get_dispatcher\<close> constructs and
  registers a dispatcher of that name whose parent is the name with its last dot-delimited
  segment stripped once, if that one prefix names a registered dispatcher, and the root's
  name otherwise. For a name with a dot the prefix tried is the longest proper dotted
  prefix; for a name without a dot it is the empty string.
\<close>

theorem get_dispatcher_parent_immediate_prefix:
  assumes "dispatchers st n = None"
  shows "\<exists>d st'. get_dispatcher dflt n st = Inr (d, st') \<and>
           name d = n \<and> dispatchers st' n = Some d \<and>
           parent_name d =
             (if dispatchers st (candidate_parent_name n) \<noteq> None then candidate_parent_name n
              else name (root_dispatcher dflt)) \<and>
           (if CHR ''.'' \<in> set n then candidate_parent_name n = hd (dotted_prefixes n)
            else candidate_parent_name n = [])"
proof -
  let ?d = "fresh_dispatcher dflt n st"
  let ?st' = "st\<lparr>instances := Suc (instances st), dispatchers := (dispatchers st)(n \<mapsto> ?d)\<rparr>"
  have run: "get_dispatcher dflt n st = Inr (?d, ?st')"
    using assms by (rule get_dispatcher_fresh)
  have nm: "name ?d = n" by (simp add: fresh_dispatcher_def)
  have reg: "dispatchers ?st' n = Some ?d" by simp
  have par: "parent_name ?d =
      (if dispatchers st (candidate_parent_name n) \<noteq> None then candidate_parent_name n
       else name (root_dispatcher dflt))"
    by (simp add: fresh_dispatcher_def root_dispatcher_name)
  have cand: "if CHR ''.'' \<in> set n then candidate_parent_name n = hd (dotted_prefixes n)
      else candidate_parent_name n = []"
    by (simp add: candidate_longest_dotted_prefix(1) candidate_no_dot)
  from run nm reg par cand show ?thesis by blast
qed

theorem get_dispatcher_parent_immediate_prefix_witness:
  "\<exists>st d st'. get_dispatchers example_defaults [''a.b''] (root_manager example_defaults) = Inr st \<and>
     dispatchers st ''a.b.c'' = None \<and>
     get_dispatcher example_defaults ''a.b.c'' st = Inr (d, st') \<and>
     name d = ''a.b.c'' \<and> parent_name d = ''a.b''"
proof -
  obtain st where st: "get_dispatchers example_defaults [''a.b''] (root_manager example_defaults) = Inr st"
    and free: "dispatchers st ''a.b.c'' = None"
    and cand: "dispatchers st (candidate_parent_name ''a.b.c'') \<noteq> None"
    and cand_eq: "candidate_parent_name ''a.b.c'' = ''a.b''"
    by (simp add: registry_eval)
  from get_dispatcher_parent_immediate_prefix [OF free, of example_defaults] cand cand_eq
  obtain d st' where "get_dispatcher example_defaults ''a.b.c'' st = Inr (d, st')"
    "name d = ''a.b.c''" "parent_name d = ''a.b''" by auto
  with st free show ?thesis by blast
qed

text \<open>
  C5 as stated fails: once a dispatcher with the empty name is registered, a name without
  a dot, which has no proper dotted prefix at all, gets the empty name as parent, not the
  root's name.
\<close>

theorem fallback_root_counterexample:
  "dotted_prefixes ''abc'' = [] \<and>
   resolved_parent example_defaults [''''] ''abc'' = Inr '''' \<and>
   name (root_dispatcher example_defaults) = ''root''"
  by (simp add: resolved_parent_def dotted_prefixes_def registry_eval)

text \<open>
  C5 (amended): for every name \<open>n\<close> that is not registered, such that no proper dotted
  prefix of \<open>n\<close> names a registered dispatcher and, when \<open>n\<close> has no dot, the empty name is
  not registered either, the dispatcher created by \<^verbatim>\<open>get_dispatcher(n)\<close> has the root's name
  as its parent. In particular \<open>svc.sub\<close> gets the root's name, not \<open>svc\<close>, when \<open>svc\<close> is
  not registered.
\<close>

theorem get_dispatcher_fallback_root:
  assumes "dispatchers st n = None"
    and "\<forall>p \<in> set (dotted_prefixes n). dispatchers st p = None"
    and "CHR ''.'' \<notin> set n \<longrightarrow> dispatchers st [] = None"
  shows "\<exists>d st'. get_dispatcher dflt n st = Inr (d, st') \<and> name d = n \<and>
           parent_name d = name (root_dispatcher dflt)"
proof -
  have "dispatchers st (candidate_parent_name n) = None"
  proof (cases "CHR ''.'' \<in> set n")
    case True
    then have "candidate_parent_name n \<in> set (dotted_prefixes n)"
      by (rule candidate_longest_dotted_prefix(2))
    with assms(2) show ?thesis by blast
  next
    case False
    with assms(3) show ?thesis by (simp add: candidate_no_dot)
  qed
  then have "parent_name (fresh_dispatcher dflt n st) = name (root_dispatcher dflt)"
    "name (fresh_dispatcher dflt n st) = n"
    by (simp_all add: fresh_dispatcher_def root_dispatcher_name)
  with get_dispatcher_fresh [OF assms(1), of dflt] show ?thesis by blast
qed

theorem get_dispatcher_fallback_root_witness:
  "dispatchers (root_manager example_defaults) ''svc.sub'' = None \<and>
   dotted_prefixes ''svc.sub'' = [''svc''] \<and>
   dispatchers (root_manager example_defaults) ''svc'' = None \<and>
   CHR ''.'' \<in> set ''svc.sub'' \<and>
   (\<exists>d st'. get_dispatcher example_defaults ''svc.sub'' (root_manager example_defaults) = Inr (d, st') \<and>
      name d = ''svc.sub'' \<and> parent_name d = ''root'' \<and> parent_name d \<noteq> ''svc'')"
proof -
  have free: "dispatchers (root_manager example_defaults) ''svc.sub'' = None"
    and svc: "dispatchers (root_manager example_defaults) ''svc'' = None"
    by (simp_all add: root_manager_dispatchers)
  have pre: "dotted_prefixes ''svc.sub'' = [''svc'']"
    by (simp add: dotted_prefixes_def upt_rec)
  have none: "\<forall>p \<in> set (dotted_prefixes ''svc.sub''). dispatchers (root_manager example_defaults) p = None"
    using svc by (simp add: pre)
  have dot: "CHR ''.'' \<in> set ''svc.sub''" by simp
  then have nodot: "CHR ''.'' \<notin> set ''svc.sub'' \<longrightarrow> dispatchers (root_manager example_defaults) [] = None"
    by blast
  from get_dispatcher_fallback_root [OF free none nodot, of example_defaults]
  obtain d st' where "get_dispatcher example_defaults ''svc.sub'' (root_manager example_defaults) = Inr (d, st')"
    "name d = ''svc.sub''" "parent_name d = ''root''"
    by (auto simp: root_dispatcher_name)
  then have "\<exists>d st'. get_dispatcher example_defaults ''svc.sub'' (root_manager example_defaults) = Inr (d, st') \<and>
      name d = ''svc.sub'' \<and> parent_name d = ''root'' \<and> parent_name d \<noteq> ''svc''"
    by auto
  with free pre svc dot show ?thesis by blast
qed

subsection \<open>The registry stays connected\<close>

lemma reaches_root_update:
  "reaches_root reg n \<Longrightarrow> reg k = None \<Longrightarrow> reaches_root (reg(k \<mapsto> d)) n"
proof (induction rule: reaches_root.induct)
  case (at_root reg r)
  then have "(reg(k \<mapsto> d)) ''root'' = Some r" by auto
  then show ?case by (rule reaches_root.at_root)
next
  case (via_parent reg n e)
  then have "(reg(k \<mapsto> d)) n = Some e" by auto
  with via_parent show ?case by (auto intro: reaches_root.via_parent)
qed

lemma registry_ok_bootstrap: "registry_ok (dispatchers (root_manager dflt))"
  by (auto simp: registry_ok_def root_manager_dispatchers root_dispatcher_name
      intro: reaches_root.at_root split: if_splits)

lemma registry_ok_insert:
  assumes ok: "registry_ok reg" and fresh: "reg n = None"
    and nm: "name d = n" and par: "reg (parent_name d) \<noteq> None"
  shows "registry_ok (reg(n \<mapsto> d))"
proof -
  from ok have root: "reg ''root'' \<noteq> None" by (simp add: registry_ok_def)
  with fresh have n_root: "n \<noteq> ''root''" by auto
  from par obtain p where p: "reg (parent_name d) = Some p" by auto
  with ok have "reaches_root reg (parent_name d)" by (simp add: registry_ok_def)
  then have rp: "reaches_root (reg(n \<mapsto> d)) (parent_name d)"
    using fresh by (rule reaches_root_update)
  have "(reg(n \<mapsto> d)) n = Some d" by simp
  then have rn: "reaches_root (reg(n \<mapsto> d)) n"
    using n_root rp by (rule reaches_root.via_parent)
  show ?thesis
    unfolding registry_ok_def
  proof (intro conjI allI impI)
    show "(reg(n \<mapsto> d)) ''root'' \<noteq> None" using root by simp
  next
    fix k e assume ke: "(reg(n \<mapsto> d)) k = Some e"
    show "name e = k" using ke ok nm by (auto simp: registry_ok_def split: if_splits)
    show "reaches_root (reg(n \<mapsto> d)) k"
    proof (cases "k = n")
      case True
      then show ?thesis using rn by simp
    next
      case False
      with ke have "reg k = Some e" by simp
      with ok have "reaches_root reg k" by (simp add: registry_ok_def)
      then show ?thesis using fresh by (rule reaches_root_update)
    qed
  next
    fix k e assume ke: "(reg(n \<mapsto> d)) k = Some e" and kr: "k \<noteq> ''root''"
    show "(reg(n \<mapsto> d)) (parent_name e) \<noteq> None"
    proof (cases "k = n")
      case True
      with ke par show ?thesis by auto
    next
      case False
      with ke have "reg k = Some e" by simp
      with ok kr have "reg (parent_name e) \<noteq> None" by (simp add: registry_ok_def)
      then show ?thesis by auto
    qed
  qed
qed

lemma registry_ok_get_dispatcher:
  assumes ok: "registry_ok (dispatchers st)" and run: "get_dispatcher dflt n st = Inr (d, st')"
  shows "registry_ok (dispatchers st') \<and> dispatchers st' ''root'' = dispatchers st ''root''"
proof (cases "dispatchers st n")
  case None
  from ok have root: "dispatchers st ''root'' \<noteq> None" by (simp add: registry_ok_def)
  with None have n_root: "n \<noteq> ''root''" by auto
  from run get_dispatcher_fresh [OF None, of dflt]
  have st': "dispatchers st' = (dispatchers st)(n \<mapsto> fresh_dispatcher dflt n st)" by auto
  have "registry_ok ((dispatchers st)(n \<mapsto> fresh_dispatcher dflt n st))"
    using ok None
  proof (rule registry_ok_insert)
    show "name (fresh_dispatcher dflt n st) = n" by (simp add: fresh_dispatcher_def)
    show "dispatchers st (parent_name (fresh_dispatcher dflt n st)) \<noteq> None"
      using root by (simp add: fresh_dispatcher_def)
  qed
  then show ?thesis using st' n_root by simp
next
  case (Some e)
  with run get_dispatcher_registered [OF Some, of dflt] have "st' = st" by simp
  with ok show ?thesis by simp
qed

lemma get_dispatchers_ok:
  "registry_ok (dispatchers st) \<Longrightarrow>
   \<exists>st'. get_dispatchers dflt ns st = Inr st' \<and> registry_ok (dispatchers st') \<and>
         dispatchers st' ''root'' = dispatchers st ''root''"
proof (induction ns arbitrary: st)
  case Nil
  then show ?case by simp
next
  case (Cons n ns)
  obtain d st1 where run: "get_dispatcher dflt n st = Inr (d, st1)"
    using get_dispatcher_total by blast
  from registry_ok_get_dispatcher [OF Cons.prems run]
  have ok1: "registry_ok (dispatchers st1)"
    and root1: "dispatchers st1 ''root'' = dispatchers st ''root''"
    by simp_all
  from Cons.IH [OF ok1] obtain st' where
    "get_dispatchers dflt ns st1 = Inr st'" "registry_ok (dispatchers st')"
    "dispatchers st' ''root'' = dispatchers st1 ''root''" by blast
  with run root1 show ?case by simp
qed

text \<open>
  C7: every sequence of \<^verbatim>\<open>get_dispatcher\<close> calls from the loaded module succeeds, the root
  stays registered, and in the registry it leaves every dispatcher other than the root has a
  parent name that is a key of the registry or the root's name. Every dispatcher is
  registered under its own name and connected to the root through registered parents.
\<close>

theorem parent_resolves_in_registry:
  "\<exists>st. get_dispatchers dflt ns (root_manager dflt) = Inr st \<and>
        dispatchers st ''root'' = Some (root_dispatcher dflt) \<and>
        (\<forall>n d. dispatchers st n = Some d \<longrightarrow> name d \<noteq> name (root_dispatcher dflt) \<longrightarrow>
           parent_name d \<in> dom (dispatchers st) \<or> parent_name d = name (root_dispatcher dflt)) \<and>
        (\<forall>n d. dispatchers st n = Some d \<longrightarrow> name d = n \<and> reaches_root (dispatchers st) n)"
proof -
  from get_dispatchers_ok [OF registry_ok_bootstrap, of dflt ns] obtain st where
    run: "get_dispatchers dflt ns (root_manager dflt) = Inr st"
    and ok: "registry_ok (dispatchers st)"
    and root: "dispatchers st ''root'' = dispatchers (root_manager dflt) ''root''" by blast
  have "dispatchers st ''root'' = Some (root_dispatcher dflt)"
    using root by (simp add: root_manager_dispatchers)
  moreover have "\<forall>n d. dispatchers st n = Some d \<longrightarrow> name d \<noteq> name (root_dispatcher dflt) \<longrightarrow>
      parent_name d \<in> dom (dispatchers st) \<or> parent_name d = name (root_dispatcher dflt)"
    using ok by (auto simp: registry_ok_def root_dispatcher_name)
  moreover have "\<forall>n d. dispatchers st n = Some d \<longrightarrow> name d = n \<and> reaches_root (dispatchers st) n"
    using ok by (simp add: registry_ok_def)
  ultimately show ?thesis using run by blast
qed

theorem parent_resolves_in_registry_witness:
  "\<exists>st d. get_dispatchers example_defaults [''svc.sub'', ''svc'', ''svc.api'']
            (root_manager example_defaults) = Inr st \<and>
     dispatchers st ''svc.api'' = Some d \<and> name d \<noteq> name (root_dispatcher example_defaults) \<and>
     parent_name d = ''svc'' \<and> parent_name d \<in> dom (dispatchers st) \<and>
     reaches_root (dispatchers st) ''svc.api''"
proof -
  from parent_resolves_in_registry [of example_defaults "[''svc.sub'', ''svc'', ''svc.api'']"]
  obtain st where
    run: "get_dispatchers example_defaults [''svc.sub'', ''svc'', ''svc.api'']
            (root_manager example_defaults) = Inr st"
    and par: "\<forall>n d. dispatchers st n = Some d \<longrightarrow> name d \<noteq> name (root_dispatcher example_defaults) \<longrightarrow>
           parent_name d \<in> dom (dispatchers st) \<or> parent_name d = name (root_dispatcher example_defaults)"
    and conn: "\<forall>n d. dispatchers st n = Some d \<longrightarrow> name d = n \<and> reaches_root (dispatchers st) n"
    by blast
  have "\<exists>d. dispatchers st ''svc.api'' = Some d \<and> parent_name d = ''svc'' \<and> name d = ''svc.api''"
    using run by (auto simp: registry_eval)
  then obtain d where d: "dispatchers st ''svc.api'' = Some d" "parent_name d = ''svc''"
    "name d = ''svc.api''" by blast
  have nr: "name d \<noteq> name (root_dispatcher example_defaults)"
    using d by (simp add: root_dispatcher_name)
  from par d nr
  have "parent_name d \<in> dom (dispatchers st) \<or> parent_name d = name (root_dispatcher example_defaults)"
    by blast
  then have "parent_name d \<in> dom (dispatchers st)" using d by (simp add: root_dispatcher_name)
  moreover from conn d have "reaches_root (dispatchers st) ''svc.api''" by blast
  ultimately show ?thesis using run d nr by blast
qed

section \<open>Properties of event tags\<close>

lemma event_tags_restores:
  "event_tags t body c = (fst (body (snd (ContextVar_set t c))), c)"
  by (cases "body (snd (ContextVar_set t c))")
     (auto simp: event_tags_def ContextVar_set_def split: sum.splits prod.splits)

lemma ContextVar_get_set: "ContextVar_get (snd (ContextVar_set t c)) = t"
  by (simp add: ContextVar_get_def ContextVar_set_def)

text \<open>
  C3: for every mapping \<open>t\<close> and every prior context \<open>c\<close>, the body of
  \<^verbatim>\<open>with event_tags(t)\<close> starts in a context where the active mapping is \<open>t\<close>; whatever the
  body does and whether it returns or fails, the scope hands on the body's own result and
  leaves exactly the prior context \<open>c\<close>, so the active mapping is the prior one again. In
  particular, after a nested scope inside the body the active mapping is \<open>t\<close> again.
\<close>

theorem event_tags_scoped:
  "ContextVar_get (snd (ContextVar_set t c)) = t \<and>
   event_tags t body c = (fst (body (snd (ContextVar_set t c))), c) \<and>
   ContextVar_get (snd (event_tags t body c)) = ContextVar_get c \<and>
   event_tags t (\<lambda>c'. (Inl e, g c')) c = (Inl e, c) \<and>
   event_tags t (\<lambda>c'. (Inr v, g c')) c = (Inr v, c) \<and>
   ContextVar_get (snd (event_tags t' body' (snd (ContextVar_set t c)))) = t"
  by (simp add: event_tags_restores ContextVar_get_set)

section \<open>Properties of spans\<close>

lemma notify_handlers_log:
  "notify_handlers msgs st = st\<lparr>span_log := span_log st @ msgs\<rparr>"
proof (induction msgs arbitrary: st)
  case Nil
  show ?case by simp
next
  case (Cons msg msgs)
  show ?case by (simp add: call_span_handler_def Cons.IH)
qed

lemma propagate_span_along_path:
  "propagation_path reg n ds \<Longrightarrow> dispatchers st = reg \<Longrightarrow>
   propagate_span mk n st =
     Some (None, st\<lparr>span_log := span_log st @ map mk (path_handlers ds)\<rparr>)"
proof (induction arbitrary: st rule: propagation_path.induct)
  case (last_stop reg n d)
  then show ?case
    by (subst propagate_span.simps) (auto simp: notify_handlers_log)
next
  case (next_stop reg n d ds)
  let ?st1 = "st\<lparr>span_log := span_log st @ map mk (span_handlers d)\<rparr>"
  have "dispatchers ?st1 = reg" using next_stop.prems by simp
  then have "propagate_span mk (parent_name d) ?st1 =
      Some (None, ?st1\<lparr>span_log := span_log ?st1 @ map mk (path_handlers ds)\<rparr>)"
    by (rule next_stop.IH)
  moreover have "propagate_span mk n st = propagate_span mk (parent_name d) ?st1"
    using next_stop.hyps next_stop.prems
    by (subst propagate_span.simps) (simp add: notify_handlers_log)
  ultimately show ?case by simp
qed

lemma reaches_root_path: "reaches_root reg n \<Longrightarrow> \<exists>ds. propagation_path reg n ds"
proof (induction rule: reaches_root.induct)
  case (at_root reg r)
  then have "propagation_path reg ''root'' [r]"
    by (intro propagation_path.last_stop) simp_all
  then show ?case by blast
next
  case (via_parent reg n d)
  then obtain ds where ds: "propagation_path reg (parent_name d) ds" by blast
  show ?case
  proof (cases "propagate d")
    case True
    with via_parent ds have "propagation_path reg n (d # ds)"
      by (intro propagation_path.next_stop)
    then show ?thesis by blast
  next
    case False
    with via_parent have "propagation_path reg n [d]"
      by (intro propagation_path.last_stop) simp_all
    then show ?thesis by blast
  qed
qed

lemma span_call_result:
  assumes enter: "propagation_path (dispatchers st) n ds"
    and run: "f (st\<lparr>next_span_id := Suc (next_span_id st),
                     span_log := span_log st @
                       map (\<lambda>h. OnEnter h (next_span_id st) n args) (path_handlers ds)\<rparr>) =
              Some (r, st2)"
    and exit: "propagation_path (dispatchers st2) n ds2"
  shows "span_call n args f st =
     Some (r, st2\<lparr>span_log := span_log st2 @
                  map (\<lambda>h. OnExit h (next_span_id st) (outcome_of r)) (path_handlers ds2)\<rparr>)"
proof -
  let ?st0 = "st\<lparr>next_span_id := Suc (next_span_id st)\<rparr>"
  have "dispatchers ?st0 = dispatchers st" by simp
  with enter have e: "propagate_span (\<lambda>h. OnEnter h (next_span_id st) n args) n ?st0 =
      Some (None, ?st0\<lparr>span_log := span_log ?st0 @
        map (\<lambda>h. OnEnter h (next_span_id st) n args) (path_handlers ds)\<rparr>)"
    by (rule propagate_span_along_path)
  from exit have x: "propagate_span (\<lambda>h. OnExit h (next_span_id st) (outcome_of r)) n st2 =
      Some (None, st2\<lparr>span_log := span_log st2 @
        map (\<lambda>h. OnExit h (next_span_id st) (outcome_of r)) (path_handlers ds2)\<rparr>)"
    by (rule propagate_span_along_path) simp
  show ?thesis
    using run by (simp add: span_call_def Let_def e x)
qed

lemma propagation_path_unique:
  "propagation_path reg n ds \<Longrightarrow> propagation_path reg n ds' \<Longrightarrow> ds = ds'"
proof (induction arbitrary: ds' rule: propagation_path.induct)
  case (last_stop reg n d)
  from last_stop.prems show ?case
  proof (cases rule: propagation_path.cases)
    case (last_stop e)
    with \<open>reg n = Some d\<close> show ?thesis by simp
  next
    case (next_stop e es)
    with \<open>reg n = Some d\<close> \<open>\<not> (propagate d \<and> n \<noteq> ''root'')\<close> show ?thesis by simp
  qed
next
  case (next_stop reg n d ds)
  from next_stop.prems show ?case
  proof (cases rule: propagation_path.cases)
    case (last_stop e)
    with next_stop.hyps show ?thesis by simp
  next
    case inner: (next_stop e es)
    with next_stop.hyps have "e = d" by simp
    with inner have "propagation_path reg (parent_name d) es" by simp
    then have "ds = es" by (rule next_stop.IH)
    with inner \<open>e = d\<close> show ?thesis by simp
  qed
qed

lemma propagation_resolves_in_built_registry:
  assumes "get_dispatchers dflt ns (root_manager dflt) = Inr st"
    and "dispatchers st n = Some d"
  shows "reaches_root (dispatchers st) n" and "\<exists>ds. propagation_path (dispatchers st) n ds"
proof -
  have "registry_ok (dispatchers (root_manager dflt))" by (rule registry_ok_bootstrap)
  from get_dispatchers_ok [OF this, of dflt ns] assms(1)
  have "registry_ok (dispatchers st)" by auto
  with assms(2) show "reaches_root (dispatchers st) n"
    by (simp add: registry_ok_def)
  then show "\<exists>ds. propagation_path (dispatchers st) n ds"
    by (rule reaches_root_path)
qed

text \<open>
  C8: when the dispatcher \<open>n\<close> and its propagation path are registered, the wrapped
  operation fails with \<open>e\<close>, and \<open>n\<close> is still connected to the root afterwards, the call
  of the span-wrapped operation fails with the same \<open>e\<close>, and what it adds to the log after the
  operation is exactly one \<open>OnExit\<close> notification with the outcome \<open>Failure e\<close> for each
  handler on the propagation path, in order, whether or not a handler fails.
\<close>

theorem span_failure_reported_and_reraised:
  assumes "propagation_path (dispatchers st) n ds"
    and "f (st\<lparr>next_span_id := Suc (next_span_id st),
                span_log := span_log st @
                  map (\<lambda>h. OnEnter h (next_span_id st) n args) (path_handlers ds)\<rparr>) =
         Some (Inl e, st2)"
    and "reaches_root (dispatchers st2) n"
  shows "\<exists>ds2. propagation_path (dispatchers st2) n ds2 \<and>
     span_call n args f st =
       Some (Inl e, st2\<lparr>span_log := span_log st2 @
                      map (\<lambda>h. OnExit h (next_span_id st) (Failure e)) (path_handlers ds2)\<rparr>)"
proof -
  from assms(3) obtain ds2 where ds2: "propagation_path (dispatchers st2) n ds2"
    using reaches_root_path by blast
  have "span_call n args f st =
       Some (Inl e, st2\<lparr>span_log := span_log st2 @
                      map (\<lambda>h. OnExit h (next_span_id st) (outcome_of (Inl e))) (path_handlers ds2)\<rparr>)"
    by (rule span_call_result [where f = f and st = st and n = n and ds = ds and args = args
          and r = "Inl e" and ?st2.0 = st2 and ?ds2.0 = ds2, OF assms(1) assms(2) ds2])
  then have "span_call n args f st =
       Some (Inl e, st2\<lparr>span_log := span_log st2 @
                      map (\<lambda>h. OnExit h (next_span_id st) (Failure e)) (path_handlers ds2)\<rparr>)"
    by simp
  with ds2 show ?thesis by blast
qed

lemma example_svc_state:
  "\<exists>st. get_dispatchers example_defaults [''svc''] (root_manager example_defaults) = Inr st \<and>
     dispatchers st ''root'' = Some (root_dispatcher example_defaults) \<and>
     dispatchers st ''svc'' = Some (fresh_dispatcher example_defaults ''svc'' (root_manager example_defaults)) \<and>
     span_log st = [] \<and> next_span_id st = 0"
proof -
  let ?D = example_defaults
  let ?d = "fresh_dispatcher ?D ''svc'' (root_manager ?D)"
  let ?st = "(root_manager ?D)\<lparr>instances := Suc (instances (root_manager ?D)),
      dispatchers := (dispatchers (root_manager ?D))(''svc'' \<mapsto> ?d)\<rparr>"
  have free: "dispatchers (root_manager ?D) ''svc'' = None"
    by (simp add: root_manager_dispatchers)
  then have "get_dispatcher ?D ''svc'' (root_manager ?D) = Inr (?d, ?st)"
    by (rule get_dispatcher_fresh)
  then have run: "get_dispatchers ?D [''svc''] (root_manager ?D) = Inr ?st"
    by simp
  have root: "dispatchers ?st ''root'' = Some (root_dispatcher ?D)"
    by (simp add: root_manager_dispatchers)
  have svc: "dispatchers ?st ''svc'' = Some ?d" by simp
  have log: "span_log ?st = []" "next_span_id ?st = 0"
    by (simp_all add: root_manager_def Dispatcher_def Manager_def unloaded_def)
  from run root svc log show ?thesis by blast
qed

lemma example_svc_dispatcher:
  "propagate (fresh_dispatcher example_defaults ''svc'' (root_manager example_defaults))"
  "parent_name (fresh_dispatcher example_defaults ''svc'' (root_manager example_defaults)) = ''root''"
  "name (fresh_dispatcher example_defaults ''svc'' (root_manager example_defaults)) = ''svc''"
  "span_handlers (fresh_dispatcher example_defaults ''svc'' (root_manager example_defaults)) =
     [SpanHandler 1, FailingSpanHandler 2]"
  by (simp_all add: fresh_dispatcher_def example_defaults_def root_manager_dispatchers
      candidate_parent_name_def)

lemma example_svc_path:
  assumes root: "reg ''root'' = Some (root_dispatcher example_defaults)"
    and svc: "reg ''svc'' = Some d"
    and "propagate d" and "parent_name d = ''root''"
  shows "propagation_path reg ''svc'' [d, root_dispatcher example_defaults]"
    and "reaches_root reg ''svc''"
proof -
  have "propagation_path reg ''root'' [root_dispatcher example_defaults]"
    using root by (rule propagation_path.last_stop) simp
  then have p: "propagation_path reg (parent_name d) [root_dispatcher example_defaults]"
    using assms(4) by simp
  have ne: "''svc'' \<noteq> ''root''" by simp
  show "propagation_path reg ''svc'' [d, root_dispatcher example_defaults]"
    using svc assms(3) ne p by (rule propagation_path.next_stop)
  have "reaches_root reg ''root''" using root by (rule reaches_root.at_root)
  then have r: "reaches_root reg (parent_name d)" using assms(4) by simp
  show "reaches_root reg ''svc''"
    using svc ne r by (rule reaches_root.via_parent)
qed

theorem span_failure_reported_and_reraised_witness:
  "\<exists>st. get_dispatchers example_defaults [''svc''] (root_manager example_defaults) = Inr st \<and>
     span_log st = [] \<and>
     map_option fst (span_call ''svc'' [4, 2] (failing_operation 7) st) =
       Some (Inl (OperationFailure 7)) \<and>
     map_option (span_log \<circ> snd) (span_call ''svc'' [4, 2] (failing_operation 7) st) =
       Some [OnEnter (SpanHandler 1) 0 ''svc'' [4, 2],
             OnEnter (FailingSpanHandler 2) 0 ''svc'' [4, 2],
             OnEnter NullSpanHandler 0 ''svc'' [4, 2],
             OnExit (SpanHandler 1) 0 (Failure (OperationFailure 7)),
             OnExit (FailingSpanHandler 2) 0 (Failure (OperationFailure 7)),
             OnExit NullSpanHandler 0 (Failure (OperationFailure 7))]"
proof -
  let ?d = "fresh_dispatcher example_defaults ''svc'' (root_manager example_defaults)"
  from example_svc_state obtain st where
    run: "get_dispatchers example_defaults [''svc''] (root_manager example_defaults) = Inr st"
    and root: "dispatchers st ''root'' = Some (root_dispatcher example_defaults)"
    and svc: "dispatchers st ''svc'' = Some ?d"
    and st: "span_log st = []" "next_span_id st = 0"
    by blast
  let ?ds = "[?d, root_dispatcher example_defaults]"
  let ?st1 = "st\<lparr>next_span_id := Suc (next_span_id st),
      span_log := span_log st @ map (\<lambda>h. OnEnter h (next_span_id st) ''svc'' [4, 2]) (path_handlers ?ds)\<rparr>"
  have path: "propagation_path (dispatchers st) ''svc'' ?ds"
    using root svc example_svc_dispatcher(1,2) by (rule example_svc_path(1))
  have fails: "failing_operation 7 ?st1 = Some (Inl (OperationFailure 7), ?st1)"
    by (simp add: failing_operation_def)
  have "reaches_root (dispatchers st) ''svc''"
    using root svc example_svc_dispatcher(1,2) by (rule example_svc_path(2))
  then have conn: "reaches_root (dispatchers ?st1) ''svc''" by simp
  from span_failure_reported_and_reraised
    [where st = st and f = "failing_operation 7" and args = "[4, 2]" and e = "OperationFailure 7"
       and n = "''svc''" and ds = "?ds" and ?st2.0 = "?st1", OF path fails conn]
  obtain ds2 where ds2: "propagation_path (dispatchers ?st1) ''svc'' ds2"
    and res: "span_call ''svc'' [4, 2] (failing_operation 7) st =
       Some (Inl (OperationFailure 7), ?st1\<lparr>span_log := span_log ?st1 @
          map (\<lambda>h. OnExit h (next_span_id st) (Failure (OperationFailure 7))) (path_handlers ds2)\<rparr>)"
    by blast
  from ds2 have "propagation_path (dispatchers st) ''svc'' ds2" by simp
  with path have ds2_eq: "ds2 = ?ds" by (rule propagation_path_unique [symmetric])
  have hs: "path_handlers ?ds = [SpanHandler 1, FailingSpanHandler 2, NullSpanHandler]"
    by (simp add: example_svc_dispatcher(4) root_dispatcher_def Dispatcher_def)
  have r1: "map_option fst (span_call ''svc'' [4, 2] (failing_operation 7) st) =
       Some (Inl (OperationFailure 7))"
    by (simp add: res)
  have r2: "map_option (span_log \<circ> snd) (span_call ''svc'' [4, 2] (failing_operation 7) st) =
       Some [OnEnter (SpanHandler 1) 0 ''svc'' [4, 2],
             OnEnter (FailingSpanHandler 2) 0 ''svc'' [4, 2],
             OnEnter NullSpanHandler 0 ''svc'' [4, 2],
             OnExit (SpanHandler 1) 0 (Failure (OperationFailure 7)),
             OnExit (FailingSpanHandler 2) 0 (Failure (OperationFailure 7)),
             OnExit NullSpanHandler 0 (Failure (OperationFailure 7))]"
    unfolding res ds2_eq hs by (simp add: st)
  from run st(1) r1 r2 show ?thesis by blast
qed

section \<open>Properties of the instrumentation hook\<close>

lemma marked_names_Nil [simp]: "marked_names [] = {}"
  by (simp add: marked_names_def)

lemma marked_names_Cons [simp]:
  "marked_names ((a, m) # items) =
     (if is_callable m \<and> (isabstractmethod m \<or> span_decorated m) then {a} else {}) \<union>
     marked_names items"
  by (auto simp: marked_names_def)

lemma collect_base_names:
  "set (fst (collect_base items acc)) \<union> set (snd (collect_base items acc)) =
   set (fst acc) \<union> set (snd acc) \<union> marked_names items"
proof (induction items acc rule: collect_base.induct)
  case (1 abstract_methods decorated_methods)
  show ?case by simp
next
  case (2 a meth items abstract_methods decorated_methods)
  show ?case
  proof (cases "is_callable meth")
    case False
    with 2 show ?thesis by simp
  next
    case True
    show ?thesis
    proof (cases "isabstractmethod meth")
      case abs: True
      with True 2 show ?thesis by auto
    next
      case abs: False
      show ?thesis
      proof (cases "span_decorated meth")
        case dec: True
        with True abs 2 show ?thesis by auto
      next
        case dec: False
        with True abs 2 show ?thesis by simp
      qed
    qed
  qed
qed

lemma instrumented_names_Nil [simp]: "instrumented_names cls [] = {}"
  by (simp add: instrumented_names_def)

lemma instrumented_names_Cons [simp]:
  "instrumented_names cls (b # mro) =
     (if class_id b = class_id cls then {} else marked_names (class_dict b)) \<union>
     instrumented_names cls mro"
  by (auto simp: instrumented_names_def)

lemma collect_mro_names:
  "set (fst (collect_mro cls mro acc)) \<union> set (snd (collect_mro cls mro acc)) =
   set (fst acc) \<union> set (snd acc) \<union> instrumented_names cls mro"
proof (induction mro arbitrary: acc)
  case Nil
  show ?case by simp
next
  case (Cons base_cls mro)
  show ?case
  proof (cases "class_id base_cls = class_id cls")
    case True
    then show ?thesis by (simp add: Cons.IH)
  next
    case False
    have "set (fst (collect_mro cls (base_cls # mro) acc)) \<union>
          set (snd (collect_mro cls (base_cls # mro) acc)) =
          (set (fst acc) \<union> set (snd acc) \<union> marked_names (class_dict base_cls)) \<union>
          instrumented_names cls mro"
      using False by (simp add: Cons.IH collect_base_names)
    also have "\<dots> = set (fst acc) \<union> set (snd acc) \<union> instrumented_names cls (base_cls # mro)"
      using False by (simp add: Un_assoc)
    finally show ?thesis .
  qed
qed

lemma dict_set_at:
  "a \<notin> fst ` set pre \<Longrightarrow> dict_set a v (pre @ (a, m) # items) = pre @ (a, v) # items"
  by (induction pre) auto


lemma wrap_items_from:
  assumes "class_dict cls = pre @ items" and "distinct (map fst (pre @ items))"
  shows "wrap_items am dm d items cls =
     cls\<lparr>class_dict := pre @ map (wrapped_item (set am \<union> set dm) d) items\<rparr>"
  using assms
proof (induction items arbitrary: pre cls)
  case Nil
  then show ?case by simp
next
  case (Cons item items)
  obtain a meth where item: "item = (a, meth)" by (cases item)
  show ?case
  proof (cases "is_callable meth \<and> \<not> isabstractmethod meth \<and> (a \<in> set am \<or> a \<in> set dm)")
    case True
    let ?cls = "setattr cls a (span d meth)"
    from Cons.prems item have fresh: "a \<notin> fst ` set pre" by auto
    have dict: "class_dict ?cls = (pre @ [(a, span d meth)]) @ items"
      using Cons.prems(1) item fresh by (simp add: setattr_def dict_set_at)
    have dist: "distinct (map fst ((pre @ [(a, span d meth)]) @ items))"
      using Cons.prems(2) item by simp
    have step: "wrap_items am dm d (item # items) cls = wrap_items am dm d items ?cls"
      using True item by simp
    have wi: "wrapped_item (set am \<union> set dm) d item = (a, span d meth)"
      using True item by (simp add: wrapped_item_def)
    have "wrap_items am dm d items ?cls =
        ?cls\<lparr>class_dict := (pre @ [(a, span d meth)]) @ map (wrapped_item (set am \<union> set dm) d) items\<rparr>"
      using dict dist by (rule Cons.IH)
    also have "\<dots> = cls\<lparr>class_dict := pre @ map (wrapped_item (set am \<union> set dm) d) (item # items)\<rparr>"
      by (simp add: setattr_def wi)
    finally show ?thesis using step by simp
  next
    case False
    have dict: "class_dict cls = (pre @ [(a, meth)]) @ items"
      using Cons.prems(1) item by simp
    have dist: "distinct (map fst ((pre @ [(a, meth)]) @ items))"
      using Cons.prems(2) item by simp
    have step: "wrap_items am dm d (item # items) cls = wrap_items am dm d items cls"
      using False item by auto
    have wi: "wrapped_item (set am \<union> set dm) d item = (a, meth)"
      using False item by (auto simp: wrapped_item_def)
    have "wrap_items am dm d items cls =
        cls\<lparr>class_dict := (pre @ [(a, meth)]) @ map (wrapped_item (set am \<union> set dm) d) items\<rparr>"
      using dict dist by (rule Cons.IH)
    also have "\<dots> = cls\<lparr>class_dict := pre @ map (wrapped_item (set am \<union> set dm) d) (item # items)\<rparr>"
      by (simp add: wi)
    finally show ?thesis using step by simp
  qed
qed

lemma init_subclass_result:
  assumes "distinct (map fst (class_dict cls))"
    and "get_dispatcher dflt (module cls) st = Inr (d, st')"
  shows "init_subclass dflt None cls mro st =
     Inr (cls\<lparr>class_dict := map (wrapped_item (instrumented_names cls mro) d) (class_dict cls)\<rparr>, st')"
proof -
  obtain am dm where acc: "collect_mro cls mro ([], []) = (am, dm)"
    by (cases "collect_mro cls mro ([], [])")
  from collect_mro_names [of cls mro "([], [])"] acc
  have names: "set am \<union> set dm = instrumented_names cls mro" by simp
  have "wrap_items am dm d (class_dict cls) cls =
      cls\<lparr>class_dict := [] @ map (wrapped_item (set am \<union> set dm) d) (class_dict cls)\<rparr>"
    using assms(1) by (intro wrap_items_from) simp_all
  then show ?thesis
    using assms(2) acc names by (simp add: init_subclass_def)
qed


lemma wrapped_item_explicit:
  "wrapped_item names d =
     (\<lambda>(a, method). (a, if is_callable method \<and> \<not> isabstractmethod method \<and> a \<in> names
                          then span d method else method))"
  by (rule ext) (simp add: wrapped_item_def split_beta)

lemma span_marks: "span_decorated (span d m)"
  by (simp add: span_def)

lemma span_wraps: "\<not> span_decorated m \<Longrightarrow> spans (span d m) = name d # spans m"
  by (simp add: span_def)

text \<open>
  C2: when line 72 returns and the class dictionary has distinct keys, the hook resolves the
  dispatcher of the class's module with \<^verbatim>\<open>get_dispatcher\<close> and replaces an item of the class's
  own dictionary by \<^verbatim>\<open>dispatcher.span(method)\<close> exactly when the method is callable, is not
  abstract on this class, and its name is defined as an abstract or marked callable by some
  class of the method-resolution order other than the class itself; every other item, and
  the rest of the class, is left as it is. The wrapped method carries the marker, and a
  method that had no marker is wrapped by the span of that dispatcher.
\<close>

theorem init_subclass_wraps_overrides:
  assumes "distinct (map fst (class_dict cls))"
  shows "\<exists>dispatcher st' cls'.
     get_dispatcher dflt (module cls) st = Inr (dispatcher, st') \<and>
     init_subclass dflt None cls mro st = Inr (cls', st') \<and>
     class_id cls' = class_id cls \<and> module cls' = module cls \<and>
     class_dict cls' =
       map (\<lambda>(a, method).
              (a, if is_callable method \<and> \<not> isabstractmethod method \<and>
                     a \<in> instrumented_names cls mro
                  then span dispatcher method else method))
           (class_dict cls) \<and>
     (\<forall>method. span_decorated (span dispatcher method)) \<and>
     (\<forall>method. \<not> span_decorated method \<longrightarrow>
        spans (span dispatcher method) = name dispatcher # spans method)"
proof -
  obtain d st' where run: "get_dispatcher dflt (module cls) st = Inr (d, st')"
    using get_dispatcher_total by blast
  let ?cls' = "cls\<lparr>class_dict := map (wrapped_item (instrumented_names cls mro) d) (class_dict cls)\<rparr>"
  have hook: "init_subclass dflt None cls mro st = Inr (?cls', st')"
    using assms run by (rule init_subclass_result)
  have dict: "class_dict ?cls' =
      map (\<lambda>(a, method).
              (a, if is_callable method \<and> \<not> isabstractmethod method \<and>
                     a \<in> instrumented_names cls mro
                  then span d method else method))
          (class_dict cls)"
    by (simp add: wrapped_item_explicit)
  have ids: "class_id ?cls' = class_id cls" "module ?cls' = module cls" by simp_all
  have marks: "\<forall>method. span_decorated (span d method)"
    by (simp add: span_marks)
  have wraps: "\<forall>method. \<not> span_decorated method \<longrightarrow> spans (span d method) = name d # spans method"
    by (simp add: span_wraps)
  from run hook ids dict marks wraps show ?thesis by blast
qed

lemma example_sub_names:
  "instrumented_names example_sub [example_sub, example_base] = {''run'', ''query'', ''stop''}"
  by (auto simp: example_sub_def example_base_def plain_function_def abstract_method_def)

theorem init_subclass_wraps_overrides_witness:
  "distinct (map fst (class_dict example_sub)) \<and>
   (\<exists>d st' cls'.
      init_subclass example_defaults None example_sub [example_sub, example_base]
        (root_manager example_defaults) = Inr (cls', st') \<and>
      dispatchers st' ''pkg.impl'' = Some d \<and> name d = ''pkg.impl'' \<and>
      class_dict cls' =
        [(''run'', (plain_function 20)\<lparr>span_decorated := True, spans := [''pkg.impl'']\<rparr>),
         (''query'', (plain_function 21)\<lparr>span_decorated := True, spans := [''pkg.impl'']\<rparr>),
         (''describe'', plain_function 22),
         (''helper'', plain_function 23),
         (''stop'', abstract_method 24)])"
proof -
  let ?D = example_defaults
  let ?st = "root_manager ?D"
  let ?mro = "[example_sub, example_base]"
  have dist: "distinct (map fst (class_dict example_sub))"
    by (simp add: example_sub_def)
  have md: "module example_sub = ''pkg.impl''" by (simp add: example_sub_def)
  have free: "dispatchers ?st (module example_sub) = None"
    by (simp add: md root_manager_dispatchers)
  from init_subclass_wraps_overrides [OF dist, of ?D ?st ?mro]
  obtain d st' cls' where
    run: "get_dispatcher ?D (module example_sub) ?st = Inr (d, st')"
    and hook: "init_subclass ?D None example_sub ?mro ?st = Inr (cls', st')"
    and dict: "class_dict cls' =
       map (\<lambda>(a, method).
              (a, if is_callable method \<and> \<not> isabstractmethod method \<and>
                     a \<in> instrumented_names example_sub ?mro
                  then span d method else method))
           (class_dict example_sub)"
    by blast
  from run get_dispatcher_fresh [OF free, of ?D]
  have d: "d = fresh_dispatcher ?D (module example_sub) ?st"
    and st': "dispatchers st' = (dispatchers ?st)(module example_sub \<mapsto> d)"
    by auto
  have nm: "name d = ''pkg.impl''" by (simp add: d fresh_dispatcher_def md)
  have reg: "dispatchers st' ''pkg.impl'' = Some d" by (simp add: st' md)
  have "class_dict cls' =
        [(''run'', (plain_function 20)\<lparr>span_decorated := True, spans := [''pkg.impl'']\<rparr>),
         (''query'', (plain_function 21)\<lparr>span_decorated := True, spans := [''pkg.impl'']\<rparr>),
         (''describe'', plain_function 22),
         (''helper'', plain_function 23),
         (''stop'', abstract_method 24)]"
    unfolding dict example_sub_names
    by (simp add: example_sub_def plain_function_def abstract_method_def span_def nm)
  with dist hook reg nm show ?thesis by blast
qed

text \<open>
  C10: whenever line 72 returns, the hook ends with the dispatcher of the class's module
  registered: the state it leaves is the state \<^verbatim>\<open>get_dispatcher(cls.__module__)\<close> leaves. If
  the module had no dispatcher, one of that name is constructed and registered; otherwise
  the state is unchanged. This holds for every class, whatever its dictionary, also when no
  method is wrapped.
\<close>

theorem init_subclass_registers_module_dispatcher:
  "\<exists>dispatcher cls' st'.
     init_subclass dflt None cls mro st = Inr (cls', st') \<and>
     get_dispatcher dflt (module cls) st = Inr (dispatcher, st') \<and>
     dispatchers st' (module cls) = Some dispatcher \<and>
     (dispatchers st (module cls) = None \<longrightarrow>
        name dispatcher = module cls \<and> instances st' = Suc (instances st) \<and>
        dispatchers st' = (dispatchers st)(module cls \<mapsto> dispatcher)) \<and>
     (dispatchers st (module cls) \<noteq> None \<longrightarrow> st' = st)"
proof (cases "dispatchers st (module cls)")
  case None
  let ?d = "fresh_dispatcher dflt (module cls) st"
  let ?st' = "st\<lparr>instances := Suc (instances st),
      dispatchers := (dispatchers st)(module cls \<mapsto> ?d)\<rparr>"
  have run: "get_dispatcher dflt (module cls) st = Inr (?d, ?st')"
    using None by (rule get_dispatcher_fresh)
  obtain acc where acc: "collect_mro cls mro ([], []) = acc" by simp
  have hook: "\<exists>cls'. init_subclass dflt None cls mro st = Inr (cls', ?st')"
    using run by (cases acc) (simp add: init_subclass_def acc)
  have nm: "name ?d = module cls" by (simp add: fresh_dispatcher_def)
  have "dispatchers ?st' (module cls) = Some ?d" "instances ?st' = Suc (instances st)"
    "dispatchers ?st' = (dispatchers st)(module cls \<mapsto> ?d)" by simp_all
  with run hook nm None show ?thesis by auto
next
  case (Some e)
  have run: "get_dispatcher dflt (module cls) st = Inr (e, st)"
    using Some by (rule get_dispatcher_registered)
  obtain acc where acc: "collect_mro cls mro ([], []) = acc" by simp
  have hook: "\<exists>cls'. init_subclass dflt None cls mro st = Inr (cls', st)"
    using run by (cases acc) (simp add: init_subclass_def acc)
  with run Some show ?thesis by auto
qed


theorem init_subclass_registers_module_dispatcher_witness:
  "dispatchers (root_manager example_defaults) ''pkg.empty'' = None \<and>
   class_dict example_empty = [] \<and>
   (\<exists>d cls' st'.
      init_subclass example_defaults None example_empty [example_empty]
        (root_manager example_defaults) = Inr (cls', st') \<and>
      dispatchers st' ''pkg.empty'' = Some d \<and> name d = ''pkg.empty'' \<and>
      instances st' = 2)"
proof -
  let ?D = example_defaults
  let ?st = "root_manager ?D"
  have md: "module example_empty = ''pkg.empty''" by (simp add: example_empty_def)
  have free: "dispatchers ?st ''pkg.empty'' = None"
    by (simp add: root_manager_dispatchers)
  have empty: "class_dict example_empty = []" by (simp add: example_empty_def)
  have count: "instances ?st = 1"
    by (simp add: root_manager_def Dispatcher_def Manager_def unloaded_def)
  from init_subclass_registers_module_dispatcher [of ?D example_empty "[example_empty]" ?st]
  obtain d cls' st' where all:
    "init_subclass ?D None example_empty [example_empty] ?st = Inr (cls', st') \<and>
     get_dispatcher ?D (module example_empty) ?st = Inr (d, st') \<and>
     dispatchers st' (module example_empty) = Some d \<and>
     (dispatchers ?st (module example_empty) = None \<longrightarrow>
        name d = module example_empty \<and> instances st' = Suc (instances ?st) \<and>
        dispatchers st' = (dispatchers ?st)(module example_empty \<mapsto> d)) \<and>
     (dispatchers ?st (module example_empty) \<noteq> None \<longrightarrow> st' = ?st)"
    by (elim exE) (rule that)
  then have hook: "init_subclass ?D None example_empty [example_empty] ?st = Inr (cls', st')"
    and reg: "dispatchers st' (module example_empty) = Some d"
    and new: "dispatchers ?st (module example_empty) = None \<longrightarrow>
        name d = module example_empty \<and> instances st' = Suc (instances ?st) \<and>
        dispatchers st' = (dispatchers ?st)(module example_empty \<mapsto> d)"
    by simp_all
  from new free md count have "name d = ''pkg.empty''" "instances st' = 2" by simp_all
  with hook reg md free empty show ?thesis by auto
qed

section \<open>Idempotence of span wrapping\<close>

lemma span_idem: "span_decorated m \<Longrightarrow> span d m = m"
  by (simp add: span_def)

lemma wrapped_item_marked:
  "span_decorated m \<Longrightarrow> wrapped_item names d (a, m) = (a, m)"
  by (simp add: wrapped_item_def span_idem)

lemma call_spanned_single: "call_spanned [n] args f st = span_call n args f st"
proof -
  have "call_spanned [] args f = f" by (rule ext) simp
  then show ?thesis by simp
qed

lemma span_call_pure:
  assumes "propagation_path (dispatchers st) n ds"
  shows "span_call n args (\<lambda>s. Some (r, s)) st =
     Some (r, st\<lparr>next_span_id := Suc (next_span_id st),
                 span_log := span_log st @
                   map (\<lambda>h. OnEnter h (next_span_id st) n args) (path_handlers ds) @
                   map (\<lambda>h. OnExit h (next_span_id st) (outcome_of r)) (path_handlers ds)\<rparr>)"
proof -
  let ?st1 = "st\<lparr>next_span_id := Suc (next_span_id st),
      span_log := span_log st @ map (\<lambda>h. OnEnter h (next_span_id st) n args) (path_handlers ds)\<rparr>"
  have run: "(\<lambda>s. Some (r, s)) ?st1 = Some (r, ?st1)" by simp
  have exit: "propagation_path (dispatchers ?st1) n ds" using assms by simp
  have "span_call n args (\<lambda>s. Some (r, s)) st =
      Some (r, ?st1\<lparr>span_log := span_log ?st1 @
        map (\<lambda>h. OnExit h (next_span_id st) (outcome_of r)) (path_handlers ds)\<rparr>)"
    by (rule span_call_result [where f = "\<lambda>s. Some (r, s)" and st = st and n = n and ds = ds
          and args = args and r = r and ?st2.0 = ?st1 and ?ds2.0 = ds, OF assms run exit])
  then show ?thesis by simp
qed

text \<open>
  C6: for every method that carries the marker, \<^verbatim>\<open>span\<close> of any dispatcher returns the method
  itself, so a call of the result is the call of the method; the hook, run on a class whose
  dictionary holds the method, leaves that item as it is, whether or not its name is one the
  hook looks for. If the method is an unwrapped function wrapped once by \<open>d0\<close>, then a call
  of it after a second wrap opens one span: every handler on the propagation path of \<open>d0\<close>
  gets one \<open>OnEnter\<close> and one \<open>OnExit\<close> for the call, not two.
\<close>

theorem span_wrapping_idempotent:
  assumes "span_decorated m"
  shows "span d m = m \<and>
     call_spanned (spans (span d m)) args f st = call_spanned (spans m) args f st \<and>
     (distinct (map fst (class_dict cls)) \<and> (a, m) \<in> set (class_dict cls) \<longrightarrow>
        (\<exists>cls' st'. init_subclass dflt None cls mro st = Inr (cls', st') \<and>
           (a, m) \<in> set (class_dict cls') \<and>
           map fst (class_dict cls') = map fst (class_dict cls))) \<and>
     (m = span d0 m0 \<and> \<not> span_decorated m0 \<and> spans m0 = [] \<and>
      propagation_path (dispatchers st) (name d0) ds \<longrightarrow>
        call_spanned (spans (span d m)) args (\<lambda>s. Some (r, s)) st =
          Some (r, st\<lparr>next_span_id := Suc (next_span_id st),
                      span_log := span_log st @
                        map (\<lambda>h. OnEnter h (next_span_id st) (name d0) args) (path_handlers ds) @
                        map (\<lambda>h. OnExit h (next_span_id st) (outcome_of r)) (path_handlers ds)\<rparr>))"
proof -
  have same: "span d m = m" using assms by (rule span_idem)
  have hook: "\<exists>cls' st'. init_subclass dflt None cls mro st = Inr (cls', st') \<and>
           (a, m) \<in> set (class_dict cls') \<and>
           map fst (class_dict cls') = map fst (class_dict cls)"
    if dist: "distinct (map fst (class_dict cls))" and mem: "(a, m) \<in> set (class_dict cls)"
  proof -
    obtain e st' where run: "get_dispatcher dflt (module cls) st = Inr (e, st')"
      using get_dispatcher_total by blast
    let ?names = "instrumented_names cls mro"
    let ?cls' = "cls\<lparr>class_dict := map (wrapped_item ?names e) (class_dict cls)\<rparr>"
    have res: "init_subclass dflt None cls mro st = Inr (?cls', st')"
      using dist run by (rule init_subclass_result)
    have "wrapped_item ?names e (a, m) \<in> wrapped_item ?names e ` set (class_dict cls)"
      using mem by (rule imageI)
    then have "(a, m) \<in> set (class_dict ?cls')"
      using assms by (simp add: wrapped_item_marked)
    moreover have "map fst (class_dict ?cls') = map fst (class_dict cls)"
      by (simp add: wrapped_item_def)
    ultimately show ?thesis using res by blast
  qed
  have once: "call_spanned (spans (span d m)) args (\<lambda>s. Some (r, s)) st =
          Some (r, st\<lparr>next_span_id := Suc (next_span_id st),
                      span_log := span_log st @
                        map (\<lambda>h. OnEnter h (next_span_id st) (name d0) args) (path_handlers ds) @
                        map (\<lambda>h. OnExit h (next_span_id st) (outcome_of r)) (path_handlers ds)\<rparr>)"
    if m: "m = span d0 m0" and plain: "\<not> span_decorated m0" "spans m0 = []"
      and path: "propagation_path (dispatchers st) (name d0) ds"
  proof -
    have sp: "spans (span d m) = [name d0]"
      using same m plain by (simp add: span_def)
    have "call_spanned (spans (span d m)) args (\<lambda>s. Some (r, s)) st =
        span_call (name d0) args (\<lambda>s. Some (r, s)) st"
      unfolding sp by (rule call_spanned_single)
    also note span_call_pure [OF path, of args r]
    finally show ?thesis .
  qed
  from same hook once show ?thesis by simp
qed


theorem span_wrapping_idempotent_witness:
  "span_decorated example_wrapped \<and>
   span (root_dispatcher example_defaults) example_wrapped = example_wrapped \<and>
   ''run'' \<in> instrumented_names example_rewrapped [example_rewrapped, example_base] \<and>
   (\<exists>cls' st'.
      init_subclass example_defaults None example_rewrapped [example_rewrapped, example_base]
        (root_manager example_defaults) = Inr (cls', st') \<and>
      class_dict cls' = [(''run'', example_wrapped)]) \<and>
   (\<exists>st. get_dispatchers example_defaults [''svc''] (root_manager example_defaults) = Inr st \<and>
      span_log st = [] \<and>
      map_option (\<lambda>res. (fst res, span_log (snd res)))
        (call_spanned (spans (span (root_dispatcher example_defaults) example_wrapped)) [4, 2]
           (\<lambda>s. Some (Inr 42, s)) st) =
        Some (Inr 42,
              [OnEnter (SpanHandler 1) 0 ''svc'' [4, 2],
               OnEnter (FailingSpanHandler 2) 0 ''svc'' [4, 2],
               OnEnter NullSpanHandler 0 ''svc'' [4, 2],
               OnExit (SpanHandler 1) 0 (Success 42),
               OnExit (FailingSpanHandler 2) 0 (Success 42),
               OnExit NullSpanHandler 0 (Success 42)]))"
proof -
  let ?D = example_defaults
  let ?d0 = "fresh_dispatcher ?D ''svc'' (root_manager ?D)"
  let ?m0 = "plain_function 30"
  let ?cls = example_rewrapped
  let ?mro = "[example_rewrapped, example_base]"
  have marked: "span_decorated example_wrapped"
    by (simp add: example_wrapped_def span_def)
  have m: "example_wrapped = span ?d0 ?m0" by (simp add: example_wrapped_def)
  have plain: "\<not> span_decorated ?m0" "spans ?m0 = []"
    by (simp_all add: plain_function_def)
  have dist: "distinct (map fst (class_dict ?cls))"
    and mem: "(''run'', example_wrapped) \<in> set (class_dict ?cls)"
    and keys: "map fst (class_dict ?cls) = [''run'']"
    by (simp_all add: example_rewrapped_def)
  have names: "''run'' \<in> instrumented_names ?cls ?mro"
    by (simp add: example_rewrapped_def example_base_def abstract_method_def plain_function_def)
  from example_svc_state obtain st where
    run: "get_dispatchers ?D [''svc''] (root_manager ?D) = Inr st"
    and root: "dispatchers st ''root'' = Some (root_dispatcher ?D)"
    and svc: "dispatchers st ''svc'' = Some ?d0"
    and st: "span_log st = []" "next_span_id st = 0"
    by blast
  let ?ds = "[?d0, root_dispatcher ?D]"
  have "propagation_path (dispatchers st) ''svc'' ?ds"
    using root svc example_svc_dispatcher(1,2) by (rule example_svc_path(1))
  then have path: "propagation_path (dispatchers st) (name ?d0) ?ds"
    by (simp add: example_svc_dispatcher(3))
  note inst = span_wrapping_idempotent [OF marked,
    where d = "root_dispatcher ?D" and cls = ?cls and a = "''run''" and ?d0.0 = ?d0 and ?m0.0 = ?m0
      and st = st and ds = ?ds and args = "[4, 2]" and r = "Inr 42" and dflt = ?D and mro = ?mro
      and f = "\<lambda>s. Some (Inr 42, s)"]
  have same: "span (root_dispatcher ?D) example_wrapped = example_wrapped"
    by (rule inst [THEN conjunct1])
  have hook_st: "\<exists>cls' st'. init_subclass ?D None ?cls ?mro (root_manager ?D) = Inr (cls', st') \<and>
      (''run'', example_wrapped) \<in> set (class_dict cls') \<and>
      map fst (class_dict cls') = map fst (class_dict ?cls)"
    using span_wrapping_idempotent [OF marked, where cls = ?cls and a = "''run''"
        and dflt = ?D and mro = ?mro and st = "root_manager ?D"] dist mem
    by blast
  then obtain cls' st' where
    res: "init_subclass ?D None ?cls ?mro (root_manager ?D) = Inr (cls', st')"
    and in': "(''run'', example_wrapped) \<in> set (class_dict cls')"
    and keys': "map fst (class_dict cls') = [''run'']"
    using keys by auto
  from keys' obtain x where one: "class_dict cls' = [x]"
    by (cases "class_dict cls'") auto
  with in' have dict': "class_dict cls' = [(''run'', example_wrapped)]" by simp
  have once: "call_spanned (spans (span (root_dispatcher ?D) example_wrapped)) [4, 2]
        (\<lambda>s. Some (Inr 42, s)) st =
      Some (Inr 42, st\<lparr>next_span_id := Suc (next_span_id st),
          span_log := span_log st @
            map (\<lambda>h. OnEnter h (next_span_id st) (name ?d0) [4, 2]) (path_handlers ?ds) @
            map (\<lambda>h. OnExit h (next_span_id st) (outcome_of (Inr 42))) (path_handlers ?ds)\<rparr>)"
    using inst [THEN conjunct2, THEN conjunct2, THEN conjunct2] m plain path by (elim impE) simp_all
  have hs: "path_handlers ?ds = [SpanHandler 1, FailingSpanHandler 2, NullSpanHandler]"
    by (simp add: example_svc_dispatcher(4) root_dispatcher_def Dispatcher_def)
  have log: "map_option (\<lambda>res. (fst res, span_log (snd res)))
        (call_spanned (spans (span (root_dispatcher ?D) example_wrapped)) [4, 2]
           (\<lambda>s. Some (Inr 42, s)) st) =
        Some (Inr 42,
              [OnEnter (SpanHandler 1) 0 ''svc'' [4, 2],
               OnEnter (FailingSpanHandler 2) 0 ''svc'' [4, 2],
               OnEnter NullSpanHandler 0 ''svc'' [4, 2],
               OnExit (SpanHandler 1) 0 (Success 42),
               OnExit (FailingSpanHandler 2) 0 (Success 42),
               OnExit NullSpanHandler 0 (Success 42)])"
    unfolding once hs by (simp add: st example_svc_dispatcher(3))
  from marked same names res dict' run st(1) log show ?thesis by blast
qed

end
